theory Spec2Isabelle
  imports Main "HOL-Library.Word" "HOL-Library.Sublist"
begin

section \<open>JavaScript strings\<close>

text \<open>
  The program is the handler of \<open>src/api/obfuscate.js\<close>, lines 109-258, with the
  Transformer \<open>simpleObfuscate\<close> inside it; line numbers below are lines of that file.
  (The file also holds an earlier copy of the handler, lines 1-105, and a piece of it after
  line 258; they are not what is modelled here.)

  A JavaScript string is a sequence of UTF-16 code units. The regular expressions of the
  handler carry no \<open>u\<close> flag, so every pattern below works on single code units.
  \<open>js\<close> turns an ASCII literal into such a sequence.
\<close>

type_synonym cu = "16 word"
type_synonym jstr = "cu list"
type_synonym byte = "8 word"

definition js :: "string \<Rightarrow> jstr" where
  "js s = map (\<lambda>c. of_nat (of_char c)) s"

abbreviation TAB :: cu where "TAB \<equiv> 0x09"
abbreviation LF :: cu where "LF \<equiv> 0x0A"
abbreviation CR :: cu where "CR \<equiv> 0x0D"
abbreviation SP :: cu where "SP \<equiv> 0x20"
abbreviation DQ :: cu where "DQ \<equiv> 0x22"
abbreviation SQ :: cu where "SQ \<equiv> 0x27"
abbreviation BS :: cu where "BS \<equiv> 0x5C"
abbreviation US :: cu where "US \<equiv> 0x5F"

text \<open>\<open>\s\<close>, and what \<open>String.prototype.trim\<close> removes: WhiteSpace and LineTerminator.\<close>

definition is_space :: "cu \<Rightarrow> bool" where
  "is_space c =
     (c = 0x09 \<or> c = 0x0A \<or> c = 0x0B \<or> c = 0x0C \<or> c = 0x0D \<or> c = 0x20 \<or> c = 0xA0
      \<or> c = 0x1680 \<or> (0x2000 \<le> c \<and> c \<le> 0x200A) \<or> c = 0x2028 \<or> c = 0x2029
      \<or> c = 0x202F \<or> c = 0x205F \<or> c = 0x3000 \<or> c = 0xFEFF)"

text \<open>The code units that \<open>.\<close> does not match.\<close>

definition is_line_terminator :: "cu \<Rightarrow> bool" where
  "is_line_terminator c = (c = 0x0A \<or> c = 0x0D \<or> c = 0x2028 \<or> c = 0x2029)"

text \<open>\<open>\d\<close>\<close>

definition is_digit :: "cu \<Rightarrow> bool" where
  "is_digit c = (0x30 \<le> c \<and> c \<le> 0x39)"

text \<open>\<open>[a-zA-Z_]\<close>\<close>

definition is_ident_start :: "cu \<Rightarrow> bool" where
  "is_ident_start c = ((0x61 \<le> c \<and> c \<le> 0x7A) \<or> (0x41 \<le> c \<and> c \<le> 0x5A) \<or> c = 0x5F)"

text \<open>\<open>[a-zA-Z0-9_]\<close>, which is also the class \<open>\w\<close> that decides \<open>\b\<close>.\<close>

definition is_word :: "cu \<Rightarrow> bool" where
  "is_word c = (is_ident_start c \<or> is_digit c)"

text \<open>Template interpolation of a non-negative integer: its decimal digits.\<close>

fun decimal :: "nat \<Rightarrow> jstr" where
  "decimal n = (if n < 10 then [of_nat (48 + n)]
                else decimal (n div 10) @ [of_nat (48 + n mod 10)])"

declare decimal.simps [simp del]

text \<open>\<open>Number(n)\<close> on a capture of \<open>\d+\<close>.\<close>

definition digits_value :: "jstr \<Rightarrow> nat" where
  "digits_value ds = foldl (\<lambda>a d. 10 * a + (unat d - 48)) 0 ds"

text \<open>\<open>Array.prototype.join\<close>\<close>

fun join :: "jstr \<Rightarrow> jstr list \<Rightarrow> jstr" where
  "join sep [] = []"
| "join sep [l] = l"
| "join sep (l # ls) = l @ sep @ join sep ls"

text \<open>\<open>String.prototype.split\<close> with a one-unit separator; the empty string gives one empty piece.\<close>

fun split :: "cu \<Rightarrow> jstr \<Rightarrow> jstr list" where
  "split d [] = [[]]"
| "split d (c # cs) =
     (if c = d then [] # split d cs
      else (case split d cs of l # ls \<Rightarrow> (c # l) # ls | [] \<Rightarrow> [[c]]))"

text \<open>\<open>String.prototype.trim\<close>\<close>

definition trim :: "jstr \<Rightarrow> jstr" where
  "trim s = rev (dropWhile is_space (rev (dropWhile is_space s)))"

text \<open>\<open>String.prototype.includes\<close>\<close>

fun js_includes :: "jstr \<Rightarrow> jstr \<Rightarrow> bool" where
  "js_includes [] needle = (needle = [])"
| "js_includes (c # cs) needle = (prefix needle (c # cs) \<or> js_includes cs needle)"

section \<open>Errors\<close>

text \<open>
  What the handler can throw: the TypeError of reading \<open>slice\<close> from \<open>undefined\<close>
  (line 179, reached from line 185), and the error a request stream reports (line 130).
\<close>

datatype js_error = TypeError | StreamError jstr

section \<open>Stage 1: string literals to placeholders (lines 141-145)\<close>

text \<open>
  \<open>"(?:\\.|[^\\"])*"\<close> after its opening quote \<open>q\<close>: a backslash takes the next code
  unit with it unless that is a line terminator, any other unit but the quote is taken
  alone, and the quote closes the literal. The units the star takes are never the quote,
  so backtracking finds no other match. The result is the matched text with the closing
  quote, and the text after it.
\<close>

fun scan_literal :: "cu \<Rightarrow> jstr \<Rightarrow> (jstr \<times> jstr) option" where
  "scan_literal q [] = None"
| "scan_literal q (c # cs) =
     (if c = q then Some ([c], cs)
      else if c = BS then
        (case cs of
           [] \<Rightarrow> None
         | d # ds \<Rightarrow>
             if is_line_terminator d then None
             else map_option (\<lambda>(m, rest). (c # d # m, rest)) (scan_literal q ds))
      else map_option (\<lambda>(m, rest). (c # m, rest)) (scan_literal q cs))"

definition placeholder :: "nat \<Rightarrow> jstr" where
  "placeholder i = js ''__STR'' @ decimal i @ js ''__''"

lemma scan_literal_length:
  "scan_literal q cs = Some (m, rest) \<Longrightarrow> length rest < length cs"
proof (induction q cs arbitrary: m rule: scan_literal.induct)
  case (1 q)
  then show ?case by simp
next
  case (2 q c cs)
  then show ?case
    by (fastforce split: if_splits list.splits)
qed

text \<open>
  The global replace: at each position the regex is tried, a match is stored in
  \<open>strings\<close> and replaced by the placeholder of its index, and the search goes on after
  the match; where nothing matches the code unit is kept.
\<close>

function extract_strings :: "jstr list \<Rightarrow> jstr \<Rightarrow> jstr \<times> jstr list" where
  "extract_strings strs [] = ([], strs)"
| "extract_strings strs (c # cs) =
     (if c = DQ \<or> c = SQ then
        (case scan_literal c cs of
           Some (m, rest) \<Rightarrow>
             (case extract_strings (strs @ [c # m]) rest of
                (out, strs') \<Rightarrow> (placeholder (length strs) @ out, strs'))
         | None \<Rightarrow>
             (case extract_strings strs cs of (out, strs') \<Rightarrow> (c # out, strs')))
      else (case extract_strings strs cs of (out, strs') \<Rightarrow> (c # out, strs')))"
  by pat_completeness auto
termination
  by (relation "measure (\<lambda>(strs, s). length s)") (auto dest: scan_literal_length)

section \<open>Stage 2: comments (lines 148-149)\<close>

text \<open>\<open>[\s\S]*?\]\]\<close>: the text after the first \<open>]]\<close>.\<close>

fun find_close :: "jstr \<Rightarrow> jstr option" where
  "find_close [] = None"
| "find_close (c # cs) =
     (if prefix (js '']]'') (c # cs) then Some (drop 2 (c # cs)) else find_close cs)"

lemma find_close_length: "find_close s = Some rest \<Longrightarrow> length rest \<le> length s"
  by (induction s) (auto split: if_splits)

function strip_block_comments :: "jstr \<Rightarrow> jstr" where
  "strip_block_comments [] = []"
| "strip_block_comments (c # cs) =
     (if prefix (js ''--[['') (c # cs) then
        (case find_close (drop 4 (c # cs)) of
           Some rest \<Rightarrow> strip_block_comments rest
         | None \<Rightarrow> c # strip_block_comments cs)
      else c # strip_block_comments cs)"
  by pat_completeness auto
termination
  by (relation "measure length") (auto dest!: find_close_length)

text \<open>
  \<open>\s*--.*(?=\n|$)\<close> after the group \<open>(^|\n)\<close>: all white space, the two dashes, the
  rest of the line; the line must end at a line feed or at the end of the text (a line
  that ends at another line terminator does not match). The result is the text from
  that line feed on.
\<close>

definition match_line_comment :: "jstr \<Rightarrow> jstr option" where
  "match_line_comment s =
     (let t = dropWhile is_space s in
      if prefix (js ''--'') t then
        (let r = dropWhile (\<lambda>c. \<not> is_line_terminator c) (drop 2 t) in
         if r = [] \<or> hd r = LF then Some r else None)
      else None)"

lemma match_line_comment_length:
  "match_line_comment s = Some r \<Longrightarrow> length r < length s"
proof -
  assume a: "match_line_comment s = Some r"
  define t where "t = dropWhile is_space s"
  from a have p: "prefix (js ''--'') t"
    and r: "r = dropWhile (\<lambda>c. \<not> is_line_terminator c) (drop 2 t)"
    by (auto simp: match_line_comment_def Let_def t_def split: if_splits)
  from p have "2 \<le> length t" by (auto simp: js_def prefix_def)
  moreover have "length r \<le> length (drop 2 t)"
    unfolding r by (rule length_dropWhile_le)
  moreover have "length t \<le> length s"
    unfolding t_def by (rule length_dropWhile_le)
  ultimately show ?thesis by simp
qed

text \<open>
  The global replace by a line feed. \<open>^\<close> holds at index 0 only (no \<open>m\<close> flag), which
  \<open>at_start\<close> records; elsewhere the group needs a line feed.
\<close>

function strip_line_comments :: "bool \<Rightarrow> jstr \<Rightarrow> jstr" where
  "strip_line_comments at_start s =
     (case (if at_start then match_line_comment s else None) of
        Some r \<Rightarrow> LF # strip_line_comments False r
      | None \<Rightarrow>
          (case s of
             [] \<Rightarrow> []
           | c # cs \<Rightarrow>
               (case (if c = LF then match_line_comment cs else None) of
                  Some r \<Rightarrow> LF # strip_line_comments False r
                | None \<Rightarrow> c # strip_line_comments False cs)))"
  by pat_completeness auto
termination
  by (relation "measure (\<lambda>(b, s). length s)")
     (auto dest!: match_line_comment_length split: if_splits)

declare strip_line_comments.simps [simp del]

section \<open>Stage 3: local names (lines 152-155)\<close>

text \<open>
  \<open>local\s+([a-zA-Z_][a-zA-Z0-9_]*)\<close> at a position where \<open>\b\<close> holds: the captured
  name and the text after it.
\<close>

definition match_local :: "jstr \<Rightarrow> (jstr \<times> jstr) option" where
  "match_local s =
     (if prefix (js ''local'') s then
        (let t = drop 5 s; u = dropWhile is_space t in
         if t \<noteq> [] \<and> is_space (hd t) \<and> u \<noteq> [] \<and> is_ident_start (hd u)
         then Some (takeWhile is_word u, dropWhile is_word u)
         else None)
      else None)"

lemma match_local_length: "match_local s = Some (name, rest) \<Longrightarrow> length rest < length s"
proof -
  assume a: "match_local s = Some (name, rest)"
  define u where "u = dropWhile is_space (drop 5 s)"
  from a have p: "prefix (js ''local'') s" and r: "rest = dropWhile is_word u"
    by (auto simp: match_local_def Let_def u_def split: if_splits)
  from p have "5 \<le> length s" by (auto simp: js_def prefix_def)
  moreover have "length rest \<le> length u"
    unfolding r by (rule length_dropWhile_le)
  moreover have "length u \<le> length (drop 5 s)"
    unfolding u_def by (rule length_dropWhile_le)
  ultimately show ?thesis by simp
qed

text \<open>
  The \<open>exec\<close> loop: the captures in the order of the matches. \<open>prevw\<close> says that the
  code unit before the position is a word character; \<open>\b\<close> before the \<open>l\<close> of
  \<open>local\<close> needs that it is not. After a match the search goes on behind the name,
  whose last unit is a word character.
\<close>

function collect_locals :: "bool \<Rightarrow> jstr \<Rightarrow> jstr list" where
  "collect_locals prevw [] = []"
| "collect_locals prevw (c # cs) =
     (case (if prevw then None else match_local (c # cs)) of
        Some (name, rest) \<Rightarrow> name # collect_locals True rest
      | None \<Rightarrow> collect_locals (is_word c) cs)"
  by pat_completeness auto
termination
  by (relation "measure (\<lambda>(b, s). length s)")
     (auto dest!: match_local_length split: if_splits)

text \<open>\<open>Set.prototype.add\<close>: a set keeps its elements in the order of their first insertion.\<close>

definition set_add :: "jstr list \<Rightarrow> jstr \<Rightarrow> jstr list" where
  "set_add xs x = (if x \<in> set xs then xs else xs @ [x])"

section \<open>Stage 4: short names (lines 158-167)\<close>

definition alpha :: jstr where
  "alpha = js ''abcdefghijklmnopqrstuvwxyz''"

text \<open>
  \<open>shortNames[name] = value\<close> on an object created by \<open>{}\<close>, with a string value. The
  object inherits the accessor \<open>__proto__\<close> of \<open>Object.prototype\<close>, whose setter
  ignores a value that is neither an object nor null: for that key the assignment
  creates no property. Every other key becomes an own property, and
  \<open>Object.entries\<close> lists the own properties with non-numeric keys in the order of
  their creation.
\<close>

definition obj_set :: "(jstr \<times> jstr) list \<Rightarrow> jstr \<Rightarrow> jstr \<Rightarrow> (jstr \<times> jstr) list" where
  "obj_set obj k v =
     (if k = js ''__proto__'' then obj
      else if k \<in> fst ` set obj then map (\<lambda>(k', v'). if k' = k then (k', v) else (k', v')) obj
      else obj @ [(k, v)])"

text \<open>The loop of lines 161-163 over the set, from the counter \<open>i\<close>.\<close>

fun assign_short :: "(jstr \<times> jstr) list \<Rightarrow> nat \<Rightarrow> jstr list \<Rightarrow> (jstr \<times> jstr) list \<times> nat" where
  "assign_short sn i [] = (sn, i)"
| "assign_short sn i (name # names) =
     assign_short (obj_set sn name (US # [alpha ! (i mod length alpha)])) (Suc i) names"

text \<open>
  The global replace of \<open>\borig\b\<close> by \<open>rep\<close> (lines 165-166). \<open>\b\<close> holds where
  exactly one of the two neighbouring code units is a word character, the ends of the
  text counting as none. The names of stage 3 are not empty, which the regex of line 153
  ensures and the recursion needs.
\<close>

definition word_boundary :: "bool \<Rightarrow> jstr \<Rightarrow> bool" where
  "word_boundary prevw s = (prevw \<noteq> (s \<noteq> [] \<and> is_word (hd s)))"

function replace_word :: "jstr \<Rightarrow> jstr \<Rightarrow> bool \<Rightarrow> jstr \<Rightarrow> jstr" where
  "replace_word orig rep prevw [] = []"
| "replace_word orig rep prevw (c # cs) =
     (if orig \<noteq> [] \<and> word_boundary prevw (c # cs) \<and> prefix orig (c # cs)
         \<and> word_boundary (is_word (last orig)) (drop (length orig) (c # cs))
      then rep @ replace_word orig rep (is_word (last orig)) (drop (length orig) (c # cs))
      else c # replace_word orig rep (is_word c) cs)"
  by pat_completeness auto
termination
  by (relation "measure (\<lambda>(orig, rep, b, s). length s)") auto

definition rename_locals :: "(jstr \<times> jstr) list \<Rightarrow> jstr \<Rightarrow> jstr" where
  "rename_locals entries code = fold (\<lambda>(orig, rep) c. replace_word orig rep False c) entries code"

section \<open>Stage 5: minification (lines 170-174)\<close>

text \<open>\<open>l.replace(/\s+/g, ' ')\<close>\<close>

function collapse_ws :: "jstr \<Rightarrow> jstr" where
  "collapse_ws [] = []"
| "collapse_ws (c # cs) =
     (if is_space c then SP # collapse_ws (dropWhile is_space cs) else c # collapse_ws cs)"
  by pat_completeness auto
termination
  by (relation "measure length") (auto simp: less_Suc_eq_le length_dropWhile_le)

definition minify :: "jstr \<Rightarrow> jstr" where
  "minify code = join [LF] (filter (\<lambda>l. l \<noteq> []) (map (\<lambda>l. trim (collapse_ws l)) (split LF code)))"

section \<open>Stage 6: base64 payloads (lines 177-185)\<close>

text \<open>\<open>s.replace(/ab/g, r)\<close> for a pattern of two literal code units and a replacement of one.\<close>

fun replace_pair :: "cu \<Rightarrow> cu \<Rightarrow> cu \<Rightarrow> jstr \<Rightarrow> jstr" where
  "replace_pair a b r (x # y # zs) =
     (if x = a \<and> y = b then r # replace_pair a b r zs else x # replace_pair a b r (y # zs))"
| "replace_pair a b r xs = xs"

text \<open>
  \<open>Buffer.from(s, 'utf8')\<close>: the UTF-8 bytes of the string. A surrogate pair is one
  code point of four bytes, and a surrogate without its partner becomes U+FFFD.
\<close>

definition utf8_2 :: "nat \<Rightarrow> byte list" where
  "utf8_2 n = [of_nat (192 + n div 64), of_nat (128 + n mod 64)]"

definition utf8_3 :: "nat \<Rightarrow> byte list" where
  "utf8_3 n = [of_nat (224 + n div 4096), of_nat (128 + (n div 64) mod 64), of_nat (128 + n mod 64)]"

definition utf8_4 :: "nat \<Rightarrow> byte list" where
  "utf8_4 n = [of_nat (240 + n div 262144), of_nat (128 + (n div 4096) mod 64),
               of_nat (128 + (n div 64) mod 64), of_nat (128 + n mod 64)]"

definition is_high_surrogate :: "cu \<Rightarrow> bool" where
  "is_high_surrogate c = (0xD800 \<le> c \<and> c \<le> 0xDBFF)"

definition is_low_surrogate :: "cu \<Rightarrow> bool" where
  "is_low_surrogate c = (0xDC00 \<le> c \<and> c \<le> 0xDFFF)"

fun utf8_encode :: "jstr \<Rightarrow> byte list" where
  "utf8_encode [] = []"
| "utf8_encode (c # cs) =
     (if c < 0x80 then of_nat (unat c) # utf8_encode cs
      else if c < 0x800 then utf8_2 (unat c) @ utf8_encode cs
      else if is_high_surrogate c then
        (case cs of
           [] \<Rightarrow> utf8_3 65533
         | d # ds \<Rightarrow>
             if is_low_surrogate d
             then utf8_4 (65536 + (unat c - 55296) * 1024 + (unat d - 56320)) @ utf8_encode ds
             else utf8_3 65533 @ utf8_encode cs)
      else if is_low_surrogate c then utf8_3 65533 @ utf8_encode cs
      else utf8_3 (unat c) @ utf8_encode cs)"

text \<open>\<open>buf.toString('base64')\<close>: the standard alphabet, padded with \<open>=\<close>.\<close>

definition b64chars :: jstr where
  "b64chars = js ''ABCDEFGHIJKLMNOPQRSTUVWXYZabcdefghijklmnopqrstuvwxyz0123456789+/''"

definition b64 :: "nat \<Rightarrow> cu" where
  "b64 n = b64chars ! (n mod 64)"

fun base64 :: "byte list \<Rightarrow> jstr" where
  "base64 [] = []"
| "base64 [a] = [b64 (unat a div 4), b64 ((unat a mod 4) * 16), 0x3D, 0x3D]"
| "base64 [a, b] =
     [b64 (unat a div 4), b64 ((unat a mod 4) * 16 + unat b div 16),
      b64 ((unat b mod 16) * 4), 0x3D]"
| "base64 (a # b # c # rest) =
     [b64 (unat a div 4), b64 ((unat a mod 4) * 16 + unat b div 16),
      b64 ((unat b mod 16) * 4 + unat c div 64), b64 (unat c mod 64)] @ base64 rest"

text \<open>
  The six replacements of lines 180-181, one after the other, each over the whole result
  of the one before.
\<close>

definition unescape :: "jstr \<Rightarrow> jstr" where
  "unescape s =
     replace_pair BS BS BS
       (replace_pair BS DQ DQ
         (replace_pair BS SQ SQ
           (replace_pair BS 0x74 TAB
             (replace_pair BS 0x72 CR
               (replace_pair BS 0x6E LF s)))))"

text \<open>\<open>strLiteral.slice(1, -1)\<close> drops the first and the last code unit.\<close>

definition toBase64 :: "jstr \<Rightarrow> jstr" where
  "toBase64 strLiteral = base64 (utf8_encode (unescape (butlast (tl strLiteral))))"

text \<open>\<open>__STR(\d+)__\<close> at a position: the number captured and the text after the match.\<close>

definition match_placeholder :: "jstr \<Rightarrow> (nat \<times> jstr) option" where
  "match_placeholder s =
     (if prefix (js ''__STR'') s then
        (let ds = takeWhile is_digit (drop 5 s); r = dropWhile is_digit (drop 5 s) in
         if ds \<noteq> [] \<and> prefix (js ''__'') r then Some (digits_value ds, drop 2 r) else None)
      else None)"

lemma match_placeholder_length:
  "match_placeholder s = Some (n, rest) \<Longrightarrow> length rest < length s"
proof -
  assume a: "match_placeholder s = Some (n, rest)"
  define r where "r = dropWhile is_digit (drop 5 s)"
  from a have p: "prefix (js ''__STR'') s" and q: "rest = drop 2 r"
    by (auto simp: match_placeholder_def Let_def r_def split: if_splits)
  from p have "5 \<le> length s" by (auto simp: js_def prefix_def)
  moreover have "length r \<le> length (drop 5 s)"
    unfolding r_def by (rule length_dropWhile_le)
  ultimately show ?thesis using q by simp
qed

text \<open>
  The global replace of line 185. \<open>strings[n]\<close> beyond the table is \<open>undefined\<close>, and
  \<open>toBase64\<close> then throws at \<open>strLiteral.slice\<close>.
\<close>

function encode_strings :: "jstr list \<Rightarrow> jstr \<Rightarrow> js_error + jstr" where
  "encode_strings strs [] = Inr []"
| "encode_strings strs (c # cs) =
     (case match_placeholder (c # cs) of
        Some (n, rest) \<Rightarrow>
          (if n < length strs then
             (case encode_strings strs rest of
                Inl e \<Rightarrow> Inl e
              | Inr out \<Rightarrow> Inr (js ''__B64('' @ [DQ] @ toBase64 (strs ! n) @ [DQ] @ js '')'' @ out))
           else Inl TypeError)
      | None \<Rightarrow>
          (case encode_strings strs cs of
             Inl e \<Rightarrow> Inl e
           | Inr out \<Rightarrow> Inr (c # out)))"
  by pat_completeness auto
termination
  by (relation "measure (\<lambda>(strs, s). length s)") (auto dest!: match_placeholder_length)

section \<open>The Transformer (lines 137-188)\<close>

text \<open>
  The variables an invocation declares. \<open>simpleObfuscate_from prev code\<close> is an
  invocation that finds \<open>prev\<close> in them, left there by whatever ran before; the
  declarations of lines 141, 152, 159 and 160 give each its initial value before it is
  read. The result is what the invocation returns or throws, and the variables at its end.
\<close>

record tstate =
  strings :: "jstr list"
  locals :: "jstr list"
  shortNames :: "(jstr \<times> jstr) list"
  idx :: nat

definition simpleObfuscate_from :: "tstate \<Rightarrow> jstr \<Rightarrow> (js_error + jstr) \<times> tstate" where
  "simpleObfuscate_from prev code =
     (if code = [] then (Inr [], prev)
      else
        (let st1 = prev\<lparr>strings := []\<rparr>;
             (code1, strs) = extract_strings (strings st1) code;
             st2 = st1\<lparr>strings := strs\<rparr>;
             code2 = strip_block_comments code1;
             code3 = strip_line_comments True code2;
             st3 = st2\<lparr>locals := []\<rparr>;
             st4 = st3\<lparr>locals := foldl set_add (locals st3) (collect_locals False code3)\<rparr>;
             st5 = st4\<lparr>shortNames := [], idx := 0\<rparr>;
             (sn, i) = assign_short (shortNames st5) (idx st5) (locals st5);
             st6 = st5\<lparr>shortNames := sn, idx := i\<rparr>;
             code4 = rename_locals (shortNames st6) code3;
             code5 = minify code4
         in (encode_strings (strings st6) code5, st6)))"

definition fresh :: tstate where
  "fresh = \<lparr>strings = [], locals = [], shortNames = [], idx = 0\<rparr>"

definition simpleObfuscate :: "jstr \<Rightarrow> js_error + jstr" where
  "simpleObfuscate code = fst (simpleObfuscate_from fresh code)"

section \<open>The handler (lines 109-258)\<close>

text \<open>
  The Lua decoder of lines 191-206, a template literal: it starts with the line feed
  that follows the opening backtick, and every line ends with one.
\<close>

definition luaB64 :: jstr where
  "luaB64 = concat (map (\<lambda>l. l @ [LF])
     [[],
      js ''local function __B64(s)'',
      js ''  local b='ABCDEFGHIJKLMNOPQRSTUVWXYZabcdefghijklmnopqrstuvwxyz0123456789+/'' @ [SQ],
      js ''  s=s:gsub('[^'..b..'=]','' @ [SQ, SQ] @ js '')'',
      js ''  return (s:gsub('.',function(x)'',
      js ''    if x=='=' then return '' @ [SQ, SQ] @ js '' end'',
      js ''    local r,f='' @ [SQ, SQ] @ js '',(b:find(x)-1)'',
      js ''    for i=6,1,-1 do r=r..(f%2^i-f%2^(i-1)>0 and '1' or '0') end'',
      js ''    return r'',
      js ''  end):gsub('%d%d%d%d%d%d%d%d',function(x)'',
      js ''    local c=0'',
      js ''    for i=1,8 do c=c+(x:sub(i,i)=='1' and 2^(8-i) or 0) end'',
      js ''    return string.char(c)'',
      js ''  end))'',
      js ''end''])"

definition header :: jstr where
  "header = js ''--[[ Made By Hiroshi ]]---- Obfuscated By Hiroshi'' @ [LF, LF]"

text \<open>\<open>header + luaB64 + '\n' + ob\<close> (lines 215 and 242)\<close>

definition assemble :: "jstr \<Rightarrow> jstr" where
  "assemble ob = header @ luaB64 @ [LF] @ ob"

definition sample :: jstr where
  "sample = js ''print('' @ [DQ] @ js ''Hello Executor!'' @ [DQ] @ js '')''"

text \<open>
  A JSON value, as the platform's body parser or \<open>JSON.parse\<close> produces it. No path of
  the handler reads a number, so the type of numbers is left open.
\<close>

typedecl js_number

datatype json =
  JNull | JBool bool | JNum js_number | JStr jstr | JArr "json list" | JObj "(jstr \<times> json) list"

text \<open>\<open>req.body\<close>: absent, a parsed JSON value (a string body is \<open>JStr\<close>), or a Buffer.\<close>

datatype body = Undefined | Value json | Buffer "byte list"

text \<open>\<open>req.query.code\<close>: absent, one value, or the values of a repeated parameter.\<close>

datatype query = QAbsent | QString jstr | QArray "jstr list"

text \<open>
  How the promise of \<open>readRawBody\<close> settles when it listens to the request stream
  (lines 126-133): with the text the stream has delivered at its end, with the empty
  text when the timer of line 132 is first, or with the error the stream reports.
\<close>

datatype stream = Resolves jstr | Rejects js_error

record request =
  req_method :: jstr
  query_code :: query
  body :: body
  stream :: stream

text \<open>
  The functions of the JavaScript runtime that the handler calls on a request body.
  \<open>JSON_parse\<close> is \<open>None\<close> where \<open>JSON.parse\<close> throws.
\<close>

record runtime =
  JSON_parse :: "jstr \<Rightarrow> json option"
  JSON_stringify :: "body \<Rightarrow> jstr"
  Buffer_toString :: "byte list \<Rightarrow> jstr"

datatype payload = Empty | Text jstr | ErrorJson jstr | InternalErrorJson js_error

text \<open>What the handler does with a request: its response, and the texts it gave to the Transformer.\<close>

record outcome =
  status :: nat
  headers :: "(jstr \<times> jstr) list"
  payload :: payload
  calls :: "jstr list"

definition cors :: "(jstr \<times> jstr) list" where
  "cors = [(js ''Access-Control-Allow-Origin'', js ''*''),
           (js ''Access-Control-Allow-Methods'', js ''GET,POST,OPTIONS''),
           (js ''Access-Control-Allow-Headers'', js ''Content-Type'')]"

text \<open>\<open>req.body && typeof req.body === 'object' && Object.keys(req.body).length > 0\<close> (line 223)\<close>

definition nonempty_object :: "body \<Rightarrow> bool" where
  "nonempty_object b =
     (case b of
        Value (JArr xs) \<Rightarrow> xs \<noteq> []
      | Value (JObj kvs) \<Rightarrow> kvs \<noteq> []
      | Buffer bs \<Rightarrow> bs \<noteq> []
      | _ \<Rightarrow> False)"

text \<open>\<open>v.code\<close> when \<open>typeof v.code === 'string'\<close>\<close>

definition code_string :: "json \<Rightarrow> jstr option" where
  "code_string v =
     (case v of
        JObj kvs \<Rightarrow> (case map_of kvs (js ''code'') of Some (JStr s) \<Rightarrow> Some s | _ \<Rightarrow> None)
      | _ \<Rightarrow> None)"

text \<open>\<open>readRawBody\<close> (lines 121-134)\<close>

definition readRawBody :: "runtime \<Rightarrow> request \<Rightarrow> js_error + jstr" where
  "readRawBody rt req =
     (let streamed = (case stream req of Resolves s \<Rightarrow> Inr s | Rejects e \<Rightarrow> Inl e) in
      case body req of
        Value (JStr s) \<Rightarrow> if s = [] then streamed else Inr s
      | Buffer bs \<Rightarrow> Inr (Buffer_toString rt bs)
      | _ \<Rightarrow> streamed)"

text \<open>The text \<open>raw\<close> of a POST request at line 237, or the error thrown before.\<close>

definition recover_raw :: "runtime \<Rightarrow> request \<Rightarrow> js_error + jstr" where
  "recover_raw rt req =
     (if nonempty_object (body req) then
        (case (case body req of Value v \<Rightarrow> code_string v | _ \<Rightarrow> None) of
           Some s \<Rightarrow> Inr s
         | None \<Rightarrow> Inr (JSON_stringify rt (body req)))
      else
        (case readRawBody rt req of
           Inl e \<Rightarrow> Inl e
         | Inr raw \<Rightarrow>
             (case JSON_parse rt (if raw = [] then js ''{}'' else raw) of
                Some parsed \<Rightarrow> (case code_string parsed of Some s \<Rightarrow> Inr s | None \<Rightarrow> Inr raw)
              | None \<Rightarrow> Inr raw)))"

text \<open>The \<open>catch\<close> of lines 252-257.\<close>

definition internal_error :: "js_error \<Rightarrow> jstr list \<Rightarrow> outcome" where
  "internal_error e cs = \<lparr>status = 500, headers = cors, payload = InternalErrorJson e, calls = cs\<rparr>"

definition handler :: "runtime \<Rightarrow> request \<Rightarrow> outcome" where
  "handler rt req =
     (if req_method req = js ''OPTIONS'' then
        \<lparr>status = 204, headers = cors, payload = Empty, calls = []\<rparr>
      else if req_method req = js ''GET'' then
        (let src = (case query_code req of
                      QAbsent \<Rightarrow> sample
                    | QString s \<Rightarrow> if s = [] then sample else s
                    | QArray xs \<Rightarrow> join [LF] xs)
         in case simpleObfuscate src of
              Inl e \<Rightarrow> internal_error e [src]
            | Inr ob \<Rightarrow>
                \<lparr>status = 200,
                 headers = cors @ [(js ''Content-Type'', js ''text/plain; charset=utf-8'')],
                 payload = Text (assemble ob), calls = [src]\<rparr>)
      else if req_method req = js ''POST'' then
        (case recover_raw rt req of
           Inl e \<Rightarrow> internal_error e []
         | Inr raw \<Rightarrow>
             if raw = [] \<or> trim raw = [] then
               \<lparr>status = 400, headers = cors,
                payload = ErrorJson (js ''No code provided in POST body''), calls = []\<rparr>
             else
               (case simpleObfuscate raw of
                  Inl e \<Rightarrow> internal_error e [raw]
                | Inr ob \<Rightarrow>
                    \<lparr>status = 200,
                     headers = cors @
                       [(js ''Content-Disposition'', js ''attachment; filename=obfuscated.lua''),
                        (js ''Content-Type'', js ''text/plain; charset=utf-8'')],
                     payload = Text (assemble ob), calls = [raw]\<rparr>))
      else
        \<lparr>status = 405, headers = cors, payload = ErrorJson (js ''Method not allowed''), calls = []\<rparr>)"

section \<open>JSON.stringify\<close>

text \<open>
  \<open>JSON.stringify\<close> of Node.js on a request body, for the examples below that need its
  value; the handler takes it from the runtime, and the general theorems hold for every
  runtime. A string is quoted with the escapes of \<open>QuoteJSONString\<close>: the short ones,
  \<open>\u00xx\<close> for the other control characters and \<open>\udxxx\<close> for a surrogate without its
  partner. The properties of an object are listed in the order of the list. A Buffer is
  serialized through its \<open>toJSON\<close>. The text of a number is a parameter. For
  \<open>undefined\<close>, which the handler never serializes, \<open>JSON.stringify\<close> returns no string.
\<close>

definition hex_digit :: "nat \<Rightarrow> cu" where
  "hex_digit n = (if n < 10 then of_nat (48 + n) else of_nat (87 + n))"

definition unicode_escape :: "cu \<Rightarrow> jstr" where
  "unicode_escape c =
     [BS, 0x75, hex_digit (unat c div 4096), hex_digit (unat c div 256 mod 16),
      hex_digit (unat c div 16 mod 16), hex_digit (unat c mod 16)]"

fun quote_units :: "jstr \<Rightarrow> jstr" where
  "quote_units [] = []"
| "quote_units (c # cs) =
     (if c = 0x08 then [BS, 0x62] @ quote_units cs
      else if c = TAB then [BS, 0x74] @ quote_units cs
      else if c = LF then [BS, 0x6E] @ quote_units cs
      else if c = 0x0C then [BS, 0x66] @ quote_units cs
      else if c = CR then [BS, 0x72] @ quote_units cs
      else if c = DQ then [BS, DQ] @ quote_units cs
      else if c = BS then [BS, BS] @ quote_units cs
      else if c < 0x20 then unicode_escape c @ quote_units cs
      else if is_high_surrogate c then
        (case cs of
           [] \<Rightarrow> unicode_escape c
         | d # ds \<Rightarrow>
             if is_low_surrogate d then c # d # quote_units ds
             else unicode_escape c @ quote_units cs)
      else if is_low_surrogate c then unicode_escape c @ quote_units cs
      else c # quote_units cs)"

definition QuoteJSONString :: "jstr \<Rightarrow> jstr" where
  "QuoteJSONString s = [DQ] @ quote_units s @ [DQ]"

fun stringify_json :: "(js_number \<Rightarrow> jstr) \<Rightarrow> json \<Rightarrow> jstr" where
  "stringify_json num JNull = js ''null''"
| "stringify_json num (JBool b) = (if b then js ''true'' else js ''false'')"
| "stringify_json num (JNum n) = num n"
| "stringify_json num (JStr s) = QuoteJSONString s"
| "stringify_json num (JArr vs) = js ''['' @ join (js '','') (map (stringify_json num) vs) @ js '']''"
| "stringify_json num (JObj kvs) =
     js ''{'' @ join (js '','')
        (map (\<lambda>kv. QuoteJSONString (fst kv) @ js '':'' @ stringify_json num (snd kv)) kvs)
      @ js ''}''"

definition stringify_body :: "(js_number \<Rightarrow> jstr) \<Rightarrow> body \<Rightarrow> jstr" where
  "stringify_body num b =
     (case b of
        Value v \<Rightarrow> stringify_json num v
      | Buffer bs \<Rightarrow>
          js ''{'' @ QuoteJSONString (js ''type'') @ js '':'' @ QuoteJSONString (js ''Buffer'')
          @ js '','' @ QuoteJSONString (js ''data'') @ js '':[''
          @ join (js '','') (map (\<lambda>x. decimal (unat x)) bs) @ js '']}''
      | Undefined \<Rightarrow> [])"

section \<open>The escape sequences as the specification reads them\<close>

text \<open>
  Stage 6 of the specification: the escape sequences for newline, carriage return, tab,
  the literal's own quote character \<open>q\<close> and the backslash, each decoded to the
  character it denotes. This definition follows the specification's words (one pass
  from the left, as Lua reads a literal), not the code; \<open>unescape\<close> above is the code.
\<close>

fun denoted :: "cu \<Rightarrow> jstr \<Rightarrow> jstr" where
  "denoted q (x # y # zs) =
     (if x = BS then
        (if y = 0x6E then LF # denoted q zs
         else if y = 0x72 then CR # denoted q zs
         else if y = 0x74 then TAB # denoted q zs
         else if y = q \<or> y = BS then y # denoted q zs
         else x # denoted q (y # zs))
      else x # denoted q (y # zs))"
| "denoted q xs = xs"

section \<open>Placeholder tokens in a text\<close>

text \<open>The regex of line 185 matches somewhere in the text.\<close>

fun has_placeholder :: "jstr \<Rightarrow> bool" where
  "has_placeholder [] = False"
| "has_placeholder (c # cs) =
     (case match_placeholder (c # cs) of Some m \<Rightarrow> True | None \<Rightarrow> has_placeholder cs)"

section \<open>Tidy lines\<close>

text \<open>
  A line is tidy when it is not empty, neither starts nor ends with white space, and
  holds no two white-space code units side by side.
\<close>

fun no_ws_pair :: "jstr \<Rightarrow> bool" where
  "no_ws_pair (x # y # zs) = (\<not> (is_space x \<and> is_space y) \<and> no_ws_pair (y # zs))"
| "no_ws_pair xs = True"

definition tidy_line :: "jstr \<Rightarrow> bool" where
  "tidy_line l = (l \<noteq> [] \<and> \<not> is_space (hd l) \<and> \<not> is_space (last l) \<and> no_ws_pair l)"

text \<open>
  The same, read from the left with the flag \<open>b\<close>: the code unit before is white space,
  or there is none.
\<close>

fun clean :: "bool \<Rightarrow> jstr \<Rightarrow> bool" where
  "clean b [] = (\<not> b)"
| "clean b (c # cs) = (\<not> (b \<and> is_space c) \<and> clean (is_space c) cs)"

section \<open>Properties\<close>

subsection \<open>The Transformer on placeholder text\<close>

text \<open>
  C1. The Transformer returns the empty string on the empty string, but it does not
  return on every input: in \<open>print(__STR0__)\<close>, which holds no string literal, line
  185 finds a placeholder whose index is beyond the empty literal table, and
  \<open>toBase64(undefined)\<close> throws a TypeError. A POST request with this code gets the
  answer 500.
\<close>

theorem simpleObfuscate_throws_on_placeholder_text:
  "simpleObfuscate [] = Inr []
   \<and> simpleObfuscate (js ''print(__STR0__)'') = Inl TypeError
   \<and> status (handler undefined \<lparr>req_method = js ''POST'', query_code = QAbsent,
         body = Value (JObj [(js ''code'', JStr (js ''print(__STR0__)''))]),
         stream = Resolves []\<rparr>) = 500"
  by code_simp

subsection \<open>POST requests without code\<close>

lemma trim_blank: "(trim s = []) = (\<forall>c\<in>set s. is_space c)"
proof
  assume "\<forall>c\<in>set s. is_space c"
  then have d: "dropWhile is_space s = []" by simp
  show "trim s = []" unfolding trim_def d by simp
next
  assume "trim s = []"
  then have a: "\<forall>c\<in>set (dropWhile is_space s). is_space c" by (simp add: trim_def)
  have "dropWhile is_space s = []"
  proof (rule ccontr)
    assume n: "dropWhile is_space s \<noteq> []"
    then have "\<not> is_space (hd (dropWhile is_space s))" by (rule hd_dropWhile)
    moreover from n have "hd (dropWhile is_space s) \<in> set (dropWhile is_space s)" by simp
    ultimately show False using a by blast
  qed
  then show "\<forall>c\<in>set s. is_space c" by simp
qed

text \<open>Line 237 and what follows it, for the text \<open>raw\<close> that the lines before have recovered.\<close>

lemma post_blank_raw:
  "req_method req = js ''POST'' \<Longrightarrow> recover_raw rt req = Inr raw \<Longrightarrow> \<forall>c\<in>set raw. is_space c \<Longrightarrow>
     handler rt req = \<lparr>status = 400, headers = cors,
        payload = ErrorJson (js ''No code provided in POST body''), calls = []\<rparr>"
  by (simp add: handler_def js_def trim_blank)

lemma post_nonblank_raw:
  "req_method req = js ''POST'' \<Longrightarrow> recover_raw rt req = Inr raw \<Longrightarrow> \<exists>c\<in>set raw. \<not> is_space c \<Longrightarrow>
     calls (handler rt req) = [raw] \<and> (status (handler rt req) = 200 \<or> status (handler rt req) = 500)"
proof -
  assume m: "req_method req = js ''POST''" and r: "recover_raw rt req = Inr raw"
    and n: "\<exists>c\<in>set raw. \<not> is_space c"
  from n have "raw \<noteq> []" by auto
  moreover from n have "trim raw \<noteq> []" by (simp add: trim_blank)
  ultimately show ?thesis using m r
    by (cases "simpleObfuscate raw") (simp_all add: handler_def js_def internal_error_def)
qed

text \<open>
  A POST request whose stream reports an error before any text is recovered: the promise
  of \<open>readRawBody\<close> is rejected, and the \<open>catch\<close> of line 252 answers 500.
\<close>

lemma post_stream_error_gives_500:
  "recover_raw undefined \<lparr>req_method = js ''POST'', query_code = QAbsent, body = Undefined,
       stream = Rejects (StreamError (js ''aborted''))\<rparr> = Inl (StreamError (js ''aborted''))
   \<and> status (handler undefined \<lparr>req_method = js ''POST'', query_code = QAbsent, body = Undefined,
       stream = Rejects (StreamError (js ''aborted''))\<rparr>) = 500"
  by code_simp

text \<open>
  C2, as the code has it, for every POST request and every runtime.
  \<^item> A parsed body that is an object whose \<open>code\<close> field is a string of nothing but white
    space (the empty string among them) is answered 400 with the error
    \<open>No code provided in POST body\<close>, and the Transformer is not called.
  \<^item> So is a request without such a parsed body (none, an empty object or array, a string)
    whose raw text is read without an error, when the \<open>code\<close> string of the parsed raw
    text, or the raw text itself where \<open>JSON.parse\<close> throws or gives no \<open>code\<close>
    string, holds nothing but white space.
  \<^item> A parsed object that is not empty and has no string \<open>code\<close> field is not rejected:
    line 225 takes its JSON text for the code, and the Transformer is called with it.
  \<^item> Nor is a request of the second kind whose text (the \<open>code\<close> string of the parsed raw
    text, else the raw text itself, be it JSON or not) holds more than white space: the
    Transformer is called with that text.
\<close>

theorem post_body_without_code:
  "req_method req = js ''POST'' \<Longrightarrow>
     (body req = Value (JObj kvs) \<and> map_of kvs (js ''code'') = Some (JStr c)
        \<and> (\<forall>x\<in>set c. is_space x)
      \<longrightarrow> handler rt req = \<lparr>status = 400, headers = cors,
            payload = ErrorJson (js ''No code provided in POST body''), calls = []\<rparr>)
   \<and> (\<not> nonempty_object (body req) \<and> readRawBody rt req = Inr text
        \<and> (\<forall>x\<in>set (case Option.bind (JSON_parse rt (if text = [] then js ''{}'' else text))
                             code_string
                       of Some c' \<Rightarrow> c' | None \<Rightarrow> text). is_space x)
      \<longrightarrow> handler rt req = \<lparr>status = 400, headers = cors,
            payload = ErrorJson (js ''No code provided in POST body''), calls = []\<rparr>)
   \<and> (body req = Value (JObj kvs') \<and> kvs' \<noteq> [] \<and> code_string (JObj kvs') = None
        \<and> (\<exists>x\<in>set (JSON_stringify rt (body req)). \<not> is_space x)
      \<longrightarrow> calls (handler rt req) = [JSON_stringify rt (body req)]
          \<and> (status (handler rt req) = 200 \<or> status (handler rt req) = 500))
   \<and> (\<not> nonempty_object (body req) \<and> readRawBody rt req = Inr text'
        \<and> (\<exists>x\<in>set (case Option.bind (JSON_parse rt (if text' = [] then js ''{}'' else text'))
                             code_string
                       of Some c' \<Rightarrow> c' | None \<Rightarrow> text'). \<not> is_space x)
      \<longrightarrow> calls (handler rt req) =
            [case Option.bind (JSON_parse rt (if text' = [] then js ''{}'' else text')) code_string
             of Some c' \<Rightarrow> c' | None \<Rightarrow> text']
          \<and> (status (handler rt req) = 200 \<or> status (handler rt req) = 500))"
proof -
  assume m: "req_method req = js ''POST''"
  have a: "handler rt req = \<lparr>status = 400, headers = cors,
            payload = ErrorJson (js ''No code provided in POST body''), calls = []\<rparr>"
    if b: "body req = Value (JObj kvs)" and k: "map_of kvs (js ''code'') = Some (JStr c)"
      and s: "\<forall>x\<in>set c. is_space x"
  proof -
    from k have "kvs \<noteq> []" by auto
    with b k have "recover_raw rt req = Inr c"
      by (simp add: recover_raw_def nonempty_object_def code_string_def)
    from post_blank_raw [OF m this s] show ?thesis .
  qed
  have b: "handler rt req = \<lparr>status = 400, headers = cors,
            payload = ErrorJson (js ''No code provided in POST body''), calls = []\<rparr>"
    if n: "\<not> nonempty_object (body req)" and t: "readRawBody rt req = Inr text"
      and s: "\<forall>x\<in>set (case Option.bind (JSON_parse rt (if text = [] then js ''{}'' else text))
                                code_string
                       of Some c' \<Rightarrow> c' | None \<Rightarrow> text). is_space x"
  proof -
    define raw where
      "raw = (case Option.bind (JSON_parse rt (if text = [] then js ''{}'' else text)) code_string
              of Some c' \<Rightarrow> c' | None \<Rightarrow> text)"
    from n t have "recover_raw rt req = Inr raw"
      unfolding raw_def recover_raw_def
      by (cases "JSON_parse rt (if text = [] then js ''{}'' else text)")
         (simp_all split: option.splits)
    moreover from s have "\<forall>x\<in>set raw. is_space x" by (simp add: raw_def)
    ultimately show ?thesis by (rule post_blank_raw [OF m])
  qed
  have c: "calls (handler rt req) = [JSON_stringify rt (body req)]
          \<and> (status (handler rt req) = 200 \<or> status (handler rt req) = 500)"
    if b: "body req = Value (JObj kvs')" and k: "kvs' \<noteq> []" and cs: "code_string (JObj kvs') = None"
      and s: "\<exists>x\<in>set (JSON_stringify rt (body req)). \<not> is_space x"
  proof -
    from b k cs have "recover_raw rt req = Inr (JSON_stringify rt (body req))"
      by (simp add: recover_raw_def nonempty_object_def)
    from post_nonblank_raw [OF m this s] show ?thesis .
  qed
  have d: "calls (handler rt req) =
            [case Option.bind (JSON_parse rt (if text' = [] then js ''{}'' else text')) code_string
             of Some c' \<Rightarrow> c' | None \<Rightarrow> text']
          \<and> (status (handler rt req) = 200 \<or> status (handler rt req) = 500)"
    if n: "\<not> nonempty_object (body req)" and t: "readRawBody rt req = Inr text'"
      and s: "\<exists>x\<in>set (case Option.bind (JSON_parse rt (if text' = [] then js ''{}'' else text'))
                                code_string
                       of Some c' \<Rightarrow> c' | None \<Rightarrow> text'). \<not> is_space x"
  proof -
    define raw where
      "raw = (case Option.bind (JSON_parse rt (if text' = [] then js ''{}'' else text')) code_string
              of Some c' \<Rightarrow> c' | None \<Rightarrow> text')"
    from n t have "recover_raw rt req = Inr raw"
      unfolding raw_def recover_raw_def
      by (cases "JSON_parse rt (if text' = [] then js ''{}'' else text')")
         (simp_all split: option.splits)
    moreover from s have "\<exists>x\<in>set raw. \<not> is_space x" by (simp add: raw_def)
    ultimately show ?thesis unfolding raw_def [symmetric] by (rule post_nonblank_raw [OF m])
  qed
  from a b c d show ?thesis by blast
qed

text \<open>
  Four requests, one for each part: the parsed body \<open>{"code": ""}\<close>, with the runtime
  left unspecified since this request calls none of its functions; a request without a
  body whose stream ends without data, in a runtime that parses the text \<open>{}\<close> of line
  230 to the empty object, as \<open>JSON.parse\<close> does; the parsed body
  \<open>{"other": "x"}\<close>, with the \<open>JSON.stringify\<close> modelled above; and the string body
  \<open>print(1)\<close>, in a runtime whose \<open>JSON.parse\<close> throws on this text, as it does on
  any text that is not JSON.
\<close>

theorem post_body_without_code_witness:
  \<open>handler undefined \<lparr>req_method = js ''POST'', query_code = QAbsent,
       body = Value (JObj [(js ''code'', JStr [])]), stream = Resolves []\<rparr>
     = \<lparr>status = 400, headers = cors,
        payload = ErrorJson (js ''No code provided in POST body''), calls = []\<rparr>
   \<and> handler \<lparr>JSON_parse = (\<lambda>t. if t = js ''{}'' then Some (JObj []) else undefined),
                JSON_stringify = undefined, Buffer_toString = undefined\<rparr>
        \<lparr>req_method = js ''POST'', query_code = QAbsent, body = Undefined, stream = Resolves []\<rparr>
     = \<lparr>status = 400, headers = cors,
        payload = ErrorJson (js ''No code provided in POST body''), calls = []\<rparr>
   \<and> calls (handler \<lparr>JSON_parse = undefined, JSON_stringify = stringify_body undefined,
                       Buffer_toString = undefined\<rparr>
        \<lparr>req_method = js ''POST'', query_code = QAbsent,
         body = Value (JObj [(js ''other'', JStr (js ''x''))]), stream = Resolves []\<rparr>)
     = [js ''{"other":"x"}'']
   \<and> calls (handler \<lparr>JSON_parse = (\<lambda>t. if t = js ''print(1)'' then None else undefined),
                       JSON_stringify = undefined, Buffer_toString = undefined\<rparr>
        \<lparr>req_method = js ''POST'', query_code = QAbsent,
         body = Value (JStr (js ''print(1)'')), stream = Resolves []\<rparr>)
     = [js ''print(1)'']\<close>
proof -
  let ?R = "\<lparr>status = 400, headers = cors,
        payload = ErrorJson (js ''No code provided in POST body''), calls = []\<rparr>"
  let ?ra = "\<lparr>req_method = js ''POST'', query_code = QAbsent,
       body = Value (JObj [(js ''code'', JStr [])]), stream = Resolves []\<rparr>"
  let ?tb = "\<lparr>JSON_parse = (\<lambda>t. if t = js ''{}'' then Some (JObj []) else undefined),
                JSON_stringify = undefined, Buffer_toString = undefined\<rparr>"
  let ?rb = "\<lparr>req_method = js ''POST'', query_code = QAbsent, body = Undefined,
                stream = Resolves []\<rparr>"
  let ?tc = "\<lparr>JSON_parse = undefined, JSON_stringify = stringify_body undefined,
                Buffer_toString = undefined\<rparr>"
  let ?rc = "\<lparr>req_method = js ''POST'', query_code = QAbsent,
         body = Value (JObj [(js ''other'', JStr (js ''x''))]), stream = Resolves []\<rparr>"
  have a: "handler undefined ?ra = ?R"
    using post_body_without_code [of ?ra "[(js ''code'', JStr [])]" "[]" undefined]
    by simp
  have pb: "Option.bind (JSON_parse ?tb (if ([]::jstr) = [] then js ''{}'' else [])) code_string = None"
    by (simp add: code_string_def)
  have b: "handler ?tb ?rb = ?R"
    using post_body_without_code [of ?rb _ _ ?tb "[]"] pb
    by (simp add: nonempty_object_def readRawBody_def)
  have sc: \<open>stringify_body undefined (Value (JObj [(js ''other'', JStr (js ''x''))]))
              = js ''{"other":"x"}''\<close>
    by code_simp
  have nc: "code_string (JObj [(js ''other'', JStr (js ''x''))]) = None"
    by (simp add: code_string_def js_def)
  have xc: \<open>\<exists>x\<in>set (js ''{"other":"x"}''). \<not> is_space x\<close>
    by (simp add: js_def is_space_def)
  have c: \<open>calls (handler ?tc ?rc) = [js ''{"other":"x"}'']\<close>
    using post_body_without_code [of ?rc _ _ ?tc _ "[(js ''other'', JStr (js ''x''))]"] nc xc
    by (simp add: sc)
  let ?td = "\<lparr>JSON_parse = (\<lambda>t. if t = js ''print(1)'' then None else undefined),
                JSON_stringify = undefined, Buffer_toString = undefined\<rparr>"
  let ?rd = "\<lparr>req_method = js ''POST'', query_code = QAbsent,
         body = Value (JStr (js ''print(1)'')), stream = Resolves []\<rparr>"
  have ne: "js ''print(1)'' \<noteq> []" by (simp add: js_def)
  have xd: "\<exists>x\<in>set (js ''print(1)''). \<not> is_space x"
    by (simp add: js_def is_space_def)
  have d: "calls (handler ?td ?rd) = [js ''print(1)'']"
    using post_body_without_code [of ?rd _ _ ?td _ _ "js ''print(1)''"] ne xd
    by (simp add: nonempty_object_def readRawBody_def)
  from a b c d show ?thesis by simp
qed

text \<open>
  The parsed body \<open>{"other": "x"}\<close> holds no code string, blank or not; the handler
  answers 200 and has called the Transformer, with the JSON text of the body.
\<close>

theorem post_object_without_code_is_transformed:
  \<open>code_string (JObj [(js ''other'', JStr (js ''x''))]) = None
   \<and> status (handler \<lparr>JSON_parse = undefined, JSON_stringify = stringify_body undefined,
                       Buffer_toString = undefined\<rparr>
        \<lparr>req_method = js ''POST'', query_code = QAbsent,
         body = Value (JObj [(js ''other'', JStr (js ''x''))]), stream = Resolves []\<rparr>) = 200
   \<and> calls (handler \<lparr>JSON_parse = undefined, JSON_stringify = stringify_body undefined,
                       Buffer_toString = undefined\<rparr>
        \<lparr>req_method = js ''POST'', query_code = QAbsent,
         body = Value (JObj [(js ''other'', JStr (js ''x''))]), stream = Resolves []\<rparr>)
     = [js ''{"other":"x"}'']\<close>
proof -
  let ?tc = "\<lparr>JSON_parse = undefined, JSON_stringify = stringify_body undefined,
                Buffer_toString = undefined\<rparr>"
  let ?rc = "\<lparr>req_method = js ''POST'', query_code = QAbsent,
         body = Value (JObj [(js ''other'', JStr (js ''x''))]), stream = Resolves []\<rparr>"
  have sc: \<open>stringify_body undefined (Value (JObj [(js ''other'', JStr (js ''x''))]))
              = js ''{"other":"x"}''\<close>
    by code_simp
  have nc: "code_string (JObj [(js ''other'', JStr (js ''x''))]) = None"
    by (simp add: code_string_def js_def)
  have r: \<open>recover_raw ?tc ?rc = Inr (js ''{"other":"x"}'')\<close>
    by (simp add: recover_raw_def nonempty_object_def nc sc)
  have t: \<open>trim (js ''{"other":"x"}'') \<noteq> []\<close>
    by (simp add: trim_blank js_def is_space_def)
  have n: \<open>js ''{"other":"x"}'' \<noteq> []\<close> by (simp add: js_def)
  have o: \<open>simpleObfuscate (js ''{"other":"x"}'')
             = Inr (js ''{__B64("b3RoZXI="):__B64("eA==")}'')\<close>
    by code_simp
  have p: "req_method ?rc = js ''POST''" by simp
  have no: "js ''POST'' \<noteq> js ''OPTIONS''" and ng: "js ''POST'' \<noteq> js ''GET''"
    by (simp_all add: js_def)
  have "status (handler ?tc ?rc) = 200" and \<open>calls (handler ?tc ?rc) = [js ''{"other":"x"}'']\<close>
    unfolding handler_def p using no ng r t n o by simp_all
  with nc show ?thesis by simp
qed

subsection \<open>The body of a successful response\<close>

text \<open>
  C3. Whenever the handler answers 200, it gave one text to the Transformer, and the body
  of the response is the banner line \<open>--[[ Made By Hiroshi ]]---- Obfuscated By Hiroshi\<close>,
  an empty line, the Lua decoder, a line feed, and then what the Transformer returned for
  that text. Every text that is not empty and that the Transformer returns on gets this
  answer when it is the \<open>code\<close> parameter of a GET request.
\<close>

theorem success_body_has_banner_and_decoder:
  "(status (handler rt req) = 200 \<longrightarrow>
      (\<exists>src ob. calls (handler rt req) = [src] \<and> simpleObfuscate src = Inr ob \<and>
         payload (handler rt req) =
           Text (js ''--[[ Made By Hiroshi ]]---- Obfuscated By Hiroshi'' @ [LF, LF] @ luaB64
                 @ [LF] @ ob)))
   \<and> (code \<noteq> [] \<and> simpleObfuscate code = Inr ob' \<longrightarrow>
        status (handler rt \<lparr>req_method = js ''GET'', query_code = QString code,
                             body = b, stream = st\<rparr>) = 200
        \<and> payload (handler rt \<lparr>req_method = js ''GET'', query_code = QString code,
                             body = b, stream = st\<rparr>) =
            Text (js ''--[[ Made By Hiroshi ]]---- Obfuscated By Hiroshi'' @ [LF, LF] @ luaB64
                  @ [LF] @ ob'))"
  by (auto simp: handler_def internal_error_def assemble_def header_def Let_def js_def
           split: if_splits sum.splits)

text \<open>
  A GET request with an empty \<open>code\<close> parameter, for which the sample is transformed,
  and one with the sample as its parameter. The runtime is left unspecified, since a GET
  request calls none of its functions.
\<close>

theorem success_body_has_banner_and_decoder_witness:
  "status (handler undefined \<lparr>req_method = js ''GET'', query_code = QString [],
       body = Undefined, stream = Resolves []\<rparr>) = 200
   \<and> payload (handler undefined \<lparr>req_method = js ''GET'', query_code = QString [],
       body = Undefined, stream = Resolves []\<rparr>)
     = Text (js ''--[[ Made By Hiroshi ]]---- Obfuscated By Hiroshi'' @ [LF, LF] @ luaB64 @ [LF]
             @ js ''print(__B64('' @ [DQ] @ js ''SGVsbG8gRXhlY3V0b3Ih'' @ [DQ] @ js ''))'')
   \<and> sample \<noteq> []
   \<and> simpleObfuscate sample
       = Inr (js ''print(__B64('' @ [DQ] @ js ''SGVsbG8gRXhlY3V0b3Ih'' @ [DQ] @ js ''))'')
   \<and> payload (handler undefined \<lparr>req_method = js ''GET'', query_code = QString sample,
       body = Undefined, stream = Resolves []\<rparr>)
     = Text (js ''--[[ Made By Hiroshi ]]---- Obfuscated By Hiroshi'' @ [LF, LF] @ luaB64 @ [LF]
             @ js ''print(__B64('' @ [DQ] @ js ''SGVsbG8gRXhlY3V0b3Ih'' @ [DQ] @ js ''))'')"
proof -
  let ?req = "\<lparr>req_method = js ''GET'', query_code = QString [], body = Undefined,
                stream = Resolves []\<rparr>"
  have s: "status (handler undefined ?req) = 200" by code_simp
  have o: "simpleObfuscate sample
             = Inr (js ''print(__B64('' @ [DQ] @ js ''SGVsbG8gRXhlY3V0b3Ih'' @ [DQ] @ js ''))'')"
    by code_simp
  have c: "calls (handler undefined ?req) = [sample]" by code_simp
  have n: "sample \<noteq> []" by (simp add: sample_def js_def)
  note t = success_body_has_banner_and_decoder
    [of undefined ?req sample "js ''print(__B64('' @ [DQ] @ js ''SGVsbG8gRXhlY3V0b3Ih'' @ [DQ] @ js ''))''"
        Undefined "Resolves []"]
  from t s c o n show ?thesis by auto
qed

subsection \<open>The aliases of local names\<close>

text \<open>
  C4. The first local name of \<open>local __proto__ = 1\<close> is collected, but the assignment of
  line 162 gives it no alias: \<open>shortNames\<close> stays empty and the name is not renamed.
\<close>

theorem proto_local_gets_no_alias:
  "locals (snd (simpleObfuscate_from fresh (js ''local __proto__ = 1''))) = [js ''__proto__'']
   \<and> shortNames (snd (simpleObfuscate_from fresh (js ''local __proto__ = 1''))) = []
   \<and> simpleObfuscate (js ''local __proto__ = 1'') = Inr (js ''local __proto__ = 1'')"
  by code_simp

text \<open>
  Every collected name but \<open>__proto__\<close> has the alias of its position: the underscore
  and the letter of index \<open>k mod 26\<close>, counting the names from 0.
\<close>

lemma obj_set_other:
  assumes "x \<noteq> k"
  shows "map_of (obj_set obj k v) x = map_of obj x"
proof -
  have m: "map_of (map (\<lambda>(k', v'). if k' = k then (k', v) else (k', v')) obj) x = map_of obj x"
    using assms by (induction obj) auto
  have a: "map_of (obj @ [(k, v)]) x = map_of obj x"
    using assms by (simp add: map_add_def split: option.split)
  show ?thesis unfolding obj_set_def using m a by simp
qed

lemma obj_set_keys: "fst ` set (obj_set obj k v) \<subseteq> insert k (fst ` set obj)"
  by (auto simp: obj_set_def split: if_splits)

lemma obj_set_new:
  assumes "k \<noteq> js ''__proto__''" and "k \<notin> fst ` set obj"
  shows "map_of (obj_set obj k v) k = Some v"
proof -
  from assms have "obj_set obj k v = obj @ [(k, v)]" by (simp add: obj_set_def)
  moreover from assms(2) have "map_of obj k = None" by (simp add: map_of_eq_None_iff)
  ultimately show ?thesis by (simp add: map_add_def)
qed

lemma assign_short_other:
  "x \<notin> set names \<Longrightarrow> map_of (fst (assign_short sn i names)) x = map_of sn x"
  by (induction sn i names rule: assign_short.induct) (auto simp: obj_set_other)

lemma assign_short_alias:
  "distinct names \<Longrightarrow> set names \<inter> fst ` set sn = {} \<Longrightarrow> k < length names \<Longrightarrow>
   names ! k \<noteq> js ''__proto__'' \<Longrightarrow>
   map_of (fst (assign_short sn i names)) (names ! k) = Some (US # [alpha ! ((i + k) mod length alpha)])"
proof (induction sn i names arbitrary: k rule: assign_short.induct)
  case (1 sn i)
  then show ?case by simp
next
  case (2 sn i name names)
  let ?sn = "obj_set sn name (US # [alpha ! (i mod length alpha)])"
  show ?case
  proof (cases k)
    case 0
    with "2.prems" have np: "name \<noteq> js ''__proto__''" and nk: "name \<notin> fst ` set sn"
      and nn: "name \<notin> set names" by auto
    from nn have "map_of (fst (assign_short ?sn (Suc i) names)) name = map_of ?sn name"
      by (rule assign_short_other)
    with obj_set_new [OF np nk] 0 show ?thesis by simp
  next
    case (Suc k')
    from "2.prems" have d: "distinct names" and nn: "name \<notin> set names" by auto
    from "2.prems"(2) nn have dj: "set names \<inter> fst ` set ?sn = {}"
      using obj_set_keys [of sn name "US # [alpha ! (i mod length alpha)]"] by auto
    from "2.prems" Suc have k: "k' < length names" "names ! k' \<noteq> js ''__proto__''" by auto
    from "2.IH" [OF d dj k] Suc show ?thesis by simp
  qed
qed

lemma set_add_distinct: "distinct xs \<Longrightarrow> distinct (set_add xs x)"
  by (simp add: set_add_def)

lemma foldl_set_add_distinct: "distinct xs \<Longrightarrow> distinct (foldl set_add xs ys)"
  by (induction ys arbitrary: xs) (simp_all add: set_add_distinct)

lemma alias_of_kth_local:
  assumes "code \<noteq> []" and "st = snd (simpleObfuscate_from prev code)"
    and "k < length (locals st)" and "locals st ! k \<noteq> js ''__proto__''"
  shows "map_of (shortNames st) (locals st ! k) = Some (US # [alpha ! (k mod 26)])"
proof -
  define names where "names = locals st"
  have d: "distinct names"
    using assms(1,2) unfolding names_def
    by (auto simp: simpleObfuscate_from_def Let_def foldl_set_add_distinct split: prod.splits)
  have sn: "shortNames st = fst (assign_short [] 0 names)"
    using assms(1,2) unfolding names_def
    by (auto simp: simpleObfuscate_from_def Let_def split: prod.splits)
  have "length alpha = 26" by (simp add: alpha_def js_def)
  with assign_short_alias [OF d, of "[]" k 0] assms(3,4) show ?thesis
    unfolding sn names_def by simp
qed

subsection \<open>The payload of a literal\<close>

text \<open>
  C5. For the literal \<open>"\\n"\<close>, which denotes a backslash and the letter n, the payload
  encodes a backslash and a line feed: the first replacement of line 180 takes the second
  backslash for the start of \<open>\n\<close> before the last one looks for \<open>\\\<close>.
\<close>

theorem toBase64_escaped_backslash_then_n:
  "toBase64 ([DQ, BS, BS] @ js ''n'' @ [DQ]) = js ''XAo=''
   \<and> base64 (utf8_encode (denoted DQ ([BS, BS] @ js ''n''))) = js ''XG4=''
   \<and> simpleObfuscate (js ''print('' @ [DQ, BS, BS] @ js ''n'' @ [DQ] @ js '')'')
       = Inr (js ''print(__B64('' @ [DQ] @ js ''XAo='' @ [DQ] @ js ''))'')"
  by code_simp

subsection \<open>Two examples\<close>

text \<open>
  C6. For the input \<open>print("Hello Executor!")\<close> the Transformer returns
  \<open>print(__B64("SGVsbG8gRXhlY3V0b3Ih"))\<close>: the payload is the base64 text of
  \<open>Hello Executor!\<close>, the call \<open>__B64("SGVsbG8gRXhlY3V0b3Ih")\<close> is in the result, and
  the text \<open>Hello Executor!\<close> is not.
\<close>

theorem hello_executor_encoded:
  \<open>simpleObfuscate (js ''print("Hello Executor!")'')
     = Inr (js ''print(__B64("SGVsbG8gRXhlY3V0b3Ih"))'')
   \<and> base64 (utf8_encode (js ''Hello Executor!'')) = js ''SGVsbG8gRXhlY3V0b3Ih''
   \<and> js_includes (js ''print(__B64("SGVsbG8gRXhlY3V0b3Ih"))'') (js ''__B64("SGVsbG8gRXhlY3V0b3Ih")'')
   \<and> \<not> js_includes (js ''print(__B64("SGVsbG8gRXhlY3V0b3Ih"))'') (js ''Hello Executor!'')\<close>
  by code_simp

text \<open>
  C7. For the input of the three lines \<open>-- comment\<close>, \<open>local x = 1\<close> and \<open>print(x)\<close>
  the Transformer returns the two lines \<open>local _a = 1\<close> and \<open>print(_a)\<close>: the comment
  is gone, and \<open>x\<close> has the one alias \<open>_a\<close>, which starts with an underscore, at its
  declaration and at its use.
\<close>

theorem comment_removed_and_local_renamed:
  "simpleObfuscate (js ''-- comment'' @ [LF] @ js ''local x = 1'' @ [LF] @ js ''print(x)'')
     = Inr (js ''local _a = 1'' @ [LF] @ js ''print(_a)'')
   \<and> shortNames (snd (simpleObfuscate_from fresh
         (js ''-- comment'' @ [LF] @ js ''local x = 1'' @ [LF] @ js ''print(x)'')))
     = [(js ''x'', US # js ''a'')]
   \<and> \<not> js_includes (js ''local _a = 1'' @ [LF] @ js ''print(_a)'') (js ''-- comment'')"
  by code_simp

subsection \<open>Texts that only minification changes\<close>

text \<open>
  C8. The text \<open>print(__STR0__)\<close> holds no string literal, no comment and no local
  declaration, and minification leaves it as it is; the Transformer does not return it,
  since it throws at line 185 (the defect of C1).
\<close>

theorem plain_placeholder_text_not_minified:
  "snd (extract_strings [] (js ''print(__STR0__)'')) = []
   \<and> strip_block_comments (js ''print(__STR0__)'') = js ''print(__STR0__)''
   \<and> strip_line_comments True (js ''print(__STR0__)'') = js ''print(__STR0__)''
   \<and> collect_locals False (js ''print(__STR0__)'') = []
   \<and> minify (js ''print(__STR0__)'') = js ''print(__STR0__)''
   \<and> simpleObfuscate (js ''print(__STR0__)'') = Inl TypeError"
  by code_simp

text \<open>
  Where stages 1 to 3 find nothing and the minified text holds no placeholder token, the
  Transformer returns the minified text.
\<close>

lemma extract_strings_grows:
  "length strs \<le> length (snd (extract_strings strs s))"
proof (induction strs s rule: extract_strings.induct)
  case (1 strs)
  then show ?case by simp
next
  case (2 strs c cs)
  then show ?case
    by (auto split: option.splits prod.splits if_splits) fastforce+
qed

lemma extract_strings_none:
  "snd (extract_strings strs s) = strs \<Longrightarrow> fst (extract_strings strs s) = s"
proof (induction strs s rule: extract_strings.induct)
  case (1 strs)
  then show ?case by simp
next
  case (2 strs c cs)
  show ?case
  proof (cases "c = DQ \<or> c = SQ")
    case q: True
    show ?thesis
    proof (cases "scan_literal c cs")
      case None
      with q "2.prems" have "snd (extract_strings strs cs) = strs"
        by (auto split: prod.splits)
      with "2.IH"(1) [OF q None] have "fst (extract_strings strs cs) = cs" by simp
      with q None show ?thesis by (auto split: prod.splits)
    next
      case (Some a)
      obtain m rest where a: "a = (m, rest)" by (cases a)
      have "length (strs @ [c # m]) \<le> length (snd (extract_strings (strs @ [c # m]) rest))"
        by (rule extract_strings_grows)
      moreover from q Some a "2.prems" have "snd (extract_strings (strs @ [c # m]) rest) = strs"
        by (auto split: prod.splits)
      ultimately show ?thesis by simp
    qed
  next
    case nq: False
    with "2.prems" have "snd (extract_strings strs cs) = strs"
      by (auto split: prod.splits)
    with "2.IH"(3) [OF nq] have "fst (extract_strings strs cs) = cs" by simp
    with nq show ?thesis by (auto split: prod.splits)
  qed
qed

lemma encode_strings_none:
  "\<not> has_placeholder t \<Longrightarrow> encode_strings strs t = Inr t"
proof (induction t)
  case Nil
  then show ?case by simp
next
  case (Cons c t)
  from Cons.prems have n: "match_placeholder (c # t) = None" and "\<not> has_placeholder t"
    by (auto split: option.splits)
  with Cons.IH have "encode_strings strs t = Inr t" by simp
  with n show ?case by simp
qed

lemma minify_only:
  assumes "snd (extract_strings [] s) = []"
    and "strip_block_comments s = s"
    and "strip_line_comments True s = s"
    and "collect_locals False s = []"
    and "\<not> has_placeholder (minify s)"
  shows "simpleObfuscate s = Inr (minify s)"
proof (cases "s = []")
  case True
  then show ?thesis
    by (simp add: simpleObfuscate_def simpleObfuscate_from_def minify_def trim_def)
next
  case False
  from assms(1) have "fst (extract_strings [] s) = s" by (rule extract_strings_none)
  with assms(1) have e: "extract_strings [] s = (s, [])" by (simp add: prod_eq_iff)
  from False e assms(2-5) show ?thesis
    by (simp add: simpleObfuscate_def simpleObfuscate_from_def fresh_def Let_def
        set_add_def rename_locals_def encode_strings_none)
qed

subsection \<open>Tidy lines survive stage 6\<close>

lemma clean_iff:
  "clean b s = ((b \<longrightarrow> s \<noteq> [] \<and> \<not> is_space (hd s)) \<and> (s \<noteq> [] \<longrightarrow> \<not> is_space (last s)) \<and> no_ws_pair s)"
proof (induction s arbitrary: b)
  case Nil
  then show ?case by simp
next
  case (Cons c cs)
  then show ?case by (cases cs) auto
qed

lemma tidy_line_clean: "tidy_line l = clean True l"
  by (auto simp: tidy_line_def clean_iff)

lemma clean_nows_append:
  "p \<noteq> [] \<Longrightarrow> \<forall>c\<in>set p. \<not> is_space c \<Longrightarrow> clean b (p @ s) = clean False s"
proof (induction p arbitrary: b)
  case Nil
  then show ?case by simp
next
  case (Cons c p)
  then show ?case by (cases p) auto
qed

lemma clean_append:
  "clean b x \<Longrightarrow> x \<noteq> [] \<Longrightarrow> clean False y \<Longrightarrow> clean b (x @ y)"
proof (induction x arbitrary: b)
  case Nil
  then show ?case by simp
next
  case (Cons c x)
  then show ?case by (cases x) auto
qed

lemma LF_space: "is_space LF" by (simp add: is_space_def)

lemma clean_split:
  "clean b s \<Longrightarrow>
     (case split LF s of
        l # ls \<Rightarrow> (if b then tidy_line l else (l = [] \<or> (no_ws_pair l \<and> \<not> is_space (last l))))
                   \<and> list_all tidy_line ls
      | [] \<Rightarrow> False)"
proof (induction s arbitrary: b)
  case Nil
  then show ?case by simp
next
  case (Cons c cs)
  from Cons.prems have nb: "\<not> (b \<and> is_space c)" and cl: "clean (is_space c) cs" by auto
  note ih = Cons.IH [OF cl]
  show ?case
  proof (cases "c = LF")
    case True
    with nb ih LF_space show ?thesis by (auto split: list.splits)
  next
    case False
    obtain l ls where sp: "split LF cs = l # ls"
      using ih by (auto split: list.splits)
    show ?thesis
    proof (cases "is_space c")
      case True
      with nb have "\<not> b" by simp
      moreover from ih sp True have "tidy_line l" "list_all tidy_line ls" by auto
      ultimately show ?thesis using False sp True
        by (cases l) (auto simp: tidy_line_def)
    next
      case ns: False
      from ih sp ns have "l = [] \<or> (no_ws_pair l \<and> \<not> is_space (last l))" "list_all tidy_line ls"
        by auto
      then show ?thesis using False sp ns
        by (cases l) (auto simp: tidy_line_def)
    qed
  qed
qed

lemma tidy_lines: "tidy_line s \<Longrightarrow> list_all tidy_line (split LF s)"
  using clean_split [of True s] by (auto simp: tidy_line_clean split: list.splits)

lemma digit_not_space: "is_digit c \<Longrightarrow> \<not> is_space c"
proof
  assume d: "is_digit c" and s: "is_space c"
  from d have lo: "0x30 \<le> c" and hi: "c \<le> 0x39" by (simp_all add: is_digit_def)
  have far: "\<not> (0x2000 \<le> c)"
  proof
    assume "0x2000 \<le> c"
    from this hi have "(0x2000::cu) \<le> 0x39" by (rule order_trans)
    then show False by simp
  qed
  from s far lo hi show False
    unfolding is_space_def by (elim disjE conjE) simp_all
qed

lemma js_nows_STR: "\<forall>c\<in>set (js ''__STR''). \<not> is_space c"
  by (simp add: js_def is_space_def)

lemma js_nows_UU: "\<forall>c\<in>set (js ''__''). \<not> is_space c"
  by (simp add: js_def is_space_def)

lemma match_placeholder_split:
  assumes "match_placeholder s = Some (n, rest)"
  shows "\<exists>p. s = p @ rest \<and> p \<noteq> [] \<and> (\<forall>c\<in>set p. \<not> is_space c)"
proof -
  define ds where "ds = takeWhile is_digit (drop 5 s)"
  define r where "r = dropWhile is_digit (drop 5 s)"
  from assms have p: "prefix (js ''__STR'') s" and q: "prefix (js ''__'') r" and rest: "rest = drop 2 r"
    by (auto simp: match_placeholder_def Let_def r_def split: if_splits)
  from p have s: "s = js ''__STR'' @ drop 5 s" by (auto simp: prefix_def js_def)
  from q have r: "r = js ''__'' @ rest" unfolding rest by (auto simp: prefix_def js_def)
  have "drop 5 s = ds @ r" by (simp add: ds_def r_def)
  with s r have "s = (js ''__STR'' @ ds @ js ''__'') @ rest" by simp
  moreover have "\<forall>c\<in>set ds. \<not> is_space c"
    unfolding ds_def by (auto dest!: set_takeWhileD digit_not_space)
  then have "\<forall>c\<in>set (js ''__STR'' @ ds @ js ''__''). \<not> is_space c"
    using js_nows_STR js_nows_UU by auto
  moreover have "js ''__STR'' @ ds @ js ''__'' \<noteq> []" by (simp add: js_def)
  ultimately show ?thesis by blast
qed

lemma b64chars_nows: "\<forall>c\<in>set b64chars. \<not> is_space c"
  by (simp add: b64chars_def js_def is_space_def)

lemma b64_nows: "\<not> is_space (b64 n)"
proof -
  have "length b64chars = 64" by (simp add: b64chars_def js_def)
  then have "b64 n \<in> set b64chars" by (simp add: b64_def)
  with b64chars_nows show ?thesis by blast
qed

lemma base64_nows: "\<forall>c\<in>set (base64 bs). \<not> is_space c"
proof (induction bs rule: base64.induct)
  case 1
  then show ?case by simp
next
  case (2 a)
  then show ?case by (simp add: b64_nows) (simp add: is_space_def)
next
  case (3 a b)
  then show ?case by (simp add: b64_nows) (simp add: is_space_def)
next
  case (4 a b c rest)
  then show ?case by (simp add: b64_nows)
qed

lemma call_nows:
  "\<forall>c\<in>set (js ''__B64('' @ [DQ] @ toBase64 x @ [DQ] @ js '')''). \<not> is_space c"
proof -
  have "\<forall>c\<in>set (js ''__B64('' @ [DQ]). \<not> is_space c" by (simp add: js_def is_space_def)
  moreover have "\<forall>c\<in>set ([DQ] @ js '')''). \<not> is_space c" by (simp add: js_def is_space_def)
  ultimately show ?thesis using base64_nows [of "utf8_encode (unescape (butlast (tl x)))"]
    by (auto simp: toBase64_def)
qed

lemma encode_strings_clean:
  "encode_strings strs t = Inr out \<Longrightarrow> clean b t \<Longrightarrow> clean b out"
proof (induction strs t arbitrary: out b rule: encode_strings.induct)
  case (1 strs)
  then show ?case by simp
next
  case (2 strs c cs)
  show ?case
  proof (cases "match_placeholder (c # cs)")
    case None
    with "2.prems" obtain out' where o: "encode_strings strs cs = Inr out'" "out = c # out'"
      by (auto split: sum.splits)
    from "2.prems" have "clean (is_space c) cs" by simp
    from "2.IH"(1) [OF None o(1) this] "2.prems"(2) o(2) show ?thesis by simp
  next
    case (Some a)
    obtain n rest where a: "a = (n, rest)" by (cases a)
    with Some "2.prems" obtain out' where n: "n < length strs"
      and o: "encode_strings strs rest = Inr out'"
      "out = (js ''__B64('' @ [DQ] @ toBase64 (strs ! n) @ [DQ] @ js '')'') @ out'"
      by (auto split: sum.splits if_splits)
    from Some a obtain p where p: "c # cs = p @ rest" "p \<noteq> []" "\<forall>c\<in>set p. \<not> is_space c"
      using match_placeholder_split by blast
    with "2.prems"(2) have "clean False rest" by (simp add: clean_nows_append)
    from "2.IH"(2) [OF Some a [symmetric] n o(1) this] have "clean False out'" .
    moreover have "js ''__B64('' @ [DQ] @ toBase64 (strs ! n) @ [DQ] @ js '')'' \<noteq> []"
      by (simp add: js_def)
    ultimately show ?thesis unfolding o(2)
      using clean_nows_append [OF _ call_nows] by blast
  qed
qed


lemma no_ws_pair_append: "no_ws_pair (xs @ ys) \<Longrightarrow> no_ws_pair xs \<and> no_ws_pair ys"
proof (induction xs)
  case Nil
  then show ?case by simp
next
  case (Cons x xs)
  then show ?case by (cases xs; cases ys) auto
qed

lemma hd_collapse_ws: "s \<noteq> [] \<Longrightarrow> \<not> is_space (hd s) \<Longrightarrow> hd (collapse_ws s) = hd s"
  by (cases s) auto

lemma collapse_ws_Nil: "collapse_ws s = [] \<longleftrightarrow> s = []"
  by (cases s) auto

lemma no_ws_pair_collapse: "no_ws_pair (collapse_ws s)"
proof (induction s rule: collapse_ws.induct)
  case 1
  then show ?case by simp
next
  case (2 c cs)
  show ?case
  proof (cases "is_space c")
    case True
    define r where "r = dropWhile is_space cs"
    from True 2 have ih: "no_ws_pair (collapse_ws r)" by (simp add: r_def)
    from True have eq: "collapse_ws (c # cs) = SP # collapse_ws r" by (simp add: r_def)
    show ?thesis
    proof (cases "r = []")
      case e: True
      then show ?thesis unfolding eq by simp
    next
      case ne: False
      then have h: "\<not> is_space (hd r)" unfolding r_def by (rule hd_dropWhile)
      with ne have "hd (collapse_ws r) = hd r" by (rule hd_collapse_ws)
      with h ih ne show ?thesis unfolding eq
        by (cases "collapse_ws r") (auto simp: collapse_ws_Nil)
    qed
  next
    case False
    with 2 have ih: "no_ws_pair (collapse_ws cs)" by simp
    with False show ?thesis by (cases "collapse_ws cs") auto
  qed
qed

lemma trim_tidy:
  assumes "no_ws_pair s" and "trim s \<noteq> []"
  shows "tidy_line (trim s)"
proof -
  define u where "u = dropWhile is_space s"
  define v where "v = dropWhile is_space (rev u)"
  have t: "trim s = rev v" by (simp add: trim_def u_def v_def)
  from assms(2) t have v: "v \<noteq> []" by simp
  then have hv: "\<not> is_space (hd v)" unfolding v_def by (rule hd_dropWhile)
  have u: "u \<noteq> []"
  proof
    assume "u = []"
    then have "v = []" by (simp add: v_def)
    with v show False ..
  qed
  then have hu: "\<not> is_space (hd u)" unfolding u_def by (rule hd_dropWhile)
  have s: "s = takeWhile is_space s @ u" by (simp add: u_def)
  have "rev u = takeWhile is_space (rev u) @ v" by (simp add: v_def)
  then have "rev (rev u) = rev (takeWhile is_space (rev u) @ v)" by (rule arg_cong)
  then have ud: "u = rev v @ rev (takeWhile is_space (rev u))" by simp
  from assms(1) s have "no_ws_pair u" using no_ws_pair_append by metis
  with ud have np: "no_ws_pair (rev v)" using no_ws_pair_append by metis
  from v have "hd u = hd (rev v)" by (subst ud) simp
  with hu have "\<not> is_space (hd (rev v))" by simp
  moreover from v hv have "\<not> is_space (last (rev v))" by (simp add: last_rev)
  ultimately show ?thesis using v np unfolding t tidy_line_def by simp
qed

lemma join_clean:
  "ls \<noteq> [] \<Longrightarrow> list_all (clean True) ls \<Longrightarrow> clean True (join [LF] ls)"
proof (induction ls)
  case Nil
  then show ?case by simp
next
  case (Cons l ls)
  show ?case
  proof (cases ls)
    case Nil
    with Cons.prems show ?thesis by simp
  next
    case (Cons l' ls')
    with Cons.IH Cons.prems have "clean True (join [LF] ls)" by simp
    then have r: "clean False ([LF] @ join [LF] ls)" by (simp add: LF_space)
    from Cons.prems have l: "clean True l" by simp
    then have "l \<noteq> []" by auto
    with l have "clean True (l @ [LF] @ join [LF] ls)" using r by (rule clean_append)
    with Cons show ?thesis by simp
  qed
qed

lemma minify_tidy: "minify code \<noteq> [] \<Longrightarrow> tidy_line (minify code)"
proof -
  assume ne: "minify code \<noteq> []"
  define ls where "ls = filter (\<lambda>l. l \<noteq> []) (map (\<lambda>l. trim (collapse_ws l)) (split LF code))"
  have m: "minify code = join [LF] ls" by (simp add: minify_def ls_def)
  with ne have "ls \<noteq> []" by auto
  moreover have "list_all (clean True) ls"
    unfolding ls_def list_all_iff
    by (auto simp: tidy_line_clean [symmetric] intro!: trim_tidy no_ws_pair_collapse)
  ultimately show ?thesis unfolding m tidy_line_clean by (rule join_clean)
qed

text \<open>
  C10. When the Transformer returns a text that is not empty, every line of it (the pieces
  between line feeds) is tidy: not empty, without white space at its start or end, and
  without two white-space code units side by side. The calls that stage 6 puts in hold
  no white space.
\<close>

theorem output_lines_tidy:
  "simpleObfuscate code = Inr out \<Longrightarrow> out \<noteq> [] \<Longrightarrow> list_all tidy_line (split LF out)"
proof -
  assume r: "simpleObfuscate code = Inr out" and ne: "out \<noteq> []"
  from r ne have c: "code \<noteq> []"
    by (auto simp: simpleObfuscate_def simpleObfuscate_from_def)
  with r obtain strs t where e: "encode_strings strs (minify t) = Inr out"
    by (auto simp: simpleObfuscate_def simpleObfuscate_from_def Let_def split: prod.splits)
  have "minify t \<noteq> []"
  proof
    assume "minify t = []"
    with e ne show False by simp
  qed
  then have "clean True (minify t)" using minify_tidy by (simp add: tidy_line_clean)
  with e have "clean True out" by (rule encode_strings_clean)
  then show ?thesis using tidy_lines by (simp add: tidy_line_clean)
qed


text \<open>
  An input with a string literal that holds two spaces, and with white space around
  \<open>print\<close>: stage 1 stores the literal, minification leaves its placeholder, and stage 6
  puts the call with the payload \<open>YSAgYg==\<close> in its place.
\<close>

theorem output_lines_tidy_witness:
  \<open>simpleObfuscate (js ''local msg = "a  b"'' @ [LF] @ js ''  print(  msg )  '')
     = Inr (js ''local _a = __B64("YSAgYg==")'' @ [LF] @ js ''print( _a )'')
   \<and> strings (snd (simpleObfuscate_from fresh
         (js ''local msg = "a  b"'' @ [LF] @ js ''  print(  msg )  ''))) = [js ''"a  b"'']
   \<and> js ''local _a = __B64("YSAgYg==")'' @ [LF] @ js ''print( _a )'' \<noteq> []
   \<and> list_all tidy_line
        (split LF (js ''local _a = __B64("YSAgYg==")'' @ [LF] @ js ''print( _a )''))\<close>
proof -
  have r: \<open>simpleObfuscate (js ''local msg = "a  b"'' @ [LF] @ js ''  print(  msg )  '')
     = Inr (js ''local _a = __B64("YSAgYg==")'' @ [LF] @ js ''print( _a )'')\<close>
    by code_simp
  have s: \<open>strings (snd (simpleObfuscate_from fresh
         (js ''local msg = "a  b"'' @ [LF] @ js ''  print(  msg )  ''))) = [js ''"a  b"'']\<close>
    by code_simp
  have n: \<open>js ''local _a = __B64("YSAgYg==")'' @ [LF] @ js ''print( _a )'' \<noteq> []\<close>
    by (simp add: js_def)
  from output_lines_tidy [OF r n] r s n show ?thesis by simp
qed

end
